theory Spec2Isabelle
  imports Complex_Main
begin

section \<open>Strings\<close>

text \<open>
  A JavaScript string is modelled as a \<^typ>\<open>string\<close>: one \<^typ>\<open>char\<close> per code unit, read
  as its Latin-1 value. Code units above 255 are outside the model. The character classes
  below are the ones the regular expressions of the source name: \<^verbatim>\<open>[a-z]\<close>, \<^verbatim>\<open>[a-zA-Z]\<close>
  and \<^verbatim>\<open>\d\<close> (which in JavaScript is \<^verbatim>\<open>[0-9]\<close>).
\<close>

definition code :: "char \<Rightarrow> nat" where
  "code c = of_char c"

definition is_lower :: "char \<Rightarrow> bool" where
  "is_lower c = (97 \<le> code c \<and> code c \<le> 122)"

definition is_upper :: "char \<Rightarrow> bool" where
  "is_upper c = (65 \<le> code c \<and> code c \<le> 90)"

definition is_letter :: "char \<Rightarrow> bool" where
  "is_letter c = (is_lower c \<or> is_upper c)"

definition is_digit :: "char \<Rightarrow> bool" where
  "is_digit c = (48 \<le> code c \<and> code c \<le> 57)"

text \<open>
  White space as \<^verbatim>\<open>String.prototype.trim\<close> strips it, within Latin-1: TAB, LF, VT, FF, CR,
  SPACE and NO-BREAK SPACE.
\<close>

definition is_space :: "char \<Rightarrow> bool" where
  "is_space c = (code c \<in> {9, 10, 11, 12, 13, 32, 160})"


text \<open>
  \<^verbatim>\<open>toLowerCase\<close> and \<^verbatim>\<open>toUpperCase\<close> on one Latin-1 code unit. Lower-casing moves
  \<^verbatim>\<open>A-Z\<close> and the accented capitals (0xC0 to 0xDE, without the multiplication sign 0xD7)
  up by 32. Upper-casing is only ever applied by the source to a match of \<^verbatim>\<open>[a-z]{2}\<close>,
  so only its action on \<^verbatim>\<open>a-z\<close> is modelled; other characters are left as they are.
\<close>

definition toLowerChar :: "char \<Rightarrow> char" where
  "toLowerChar c =
     (if is_upper c \<or> (192 \<le> code c \<and> code c \<le> 222 \<and> code c \<noteq> 215)
      then char_of (code c + 32) else c)"


definition toLowerCase :: "string \<Rightarrow> string" where
  "toLowerCase s = map toLowerChar s"




section \<open>Identifier decomposition\<close>





section \<open>The reading automation engine: data\<close>

datatype AutomationState =
  Idle | Connecting | Logging_in | Loading_book | Reading | Paused | Completed | Error

datatype LogType = LInfo | LSuccess | LWarning | LError

record AutomationConfig =
  cfg_ra :: string
  cfg_password :: string
  cfg_bookSlug :: string
  cfg_interval :: real
  cfg_bookQueueId :: "string option"

record ProgressData =
  pd_currentPage :: nat
  pd_totalPages :: "nat option"
  pd_percentage :: real
  pd_elapsedTime :: real
  pd_estimatedTimeRemaining :: "real option"

record CompletedData =
  cd_bookQueueId :: "string option"
  cd_pagesRead :: nat
  cd_totalPages :: nat
  cd_timeSpent :: real

text \<open>
  The texts of the log entries. The source writes them as Portuguese string literals with
  accents; each literal is a constructor here, carrying the values the source interpolates.
  In the order of the constructors, the literals are (accents left out):
  \<^verbatim>\<open>Iniciando navegador...\<close>, \<^verbatim>\<open>Navegador iniciado com sucesso\<close>, \<^verbatim>\<open>Erro: ${message}\<close>,
  \<^verbatim>\<open>Acessando pagina de login de alunos...\<close>, the entries that \<^verbatim>\<open>login\<close> computes from
  the live document, \<^verbatim>\<open>Abrindo livro: ${bookSlug}...\<close>, \<^verbatim>\<open>Livro carregado: ${title}\<close>,
  \<^verbatim>\<open>Total de paginas detectado: ${n}\<close>, \<^verbatim>\<open>Nao foi possivel detectar o total de paginas\<close>,
  \<^verbatim>\<open>Iniciando leitura automatica...\<close>, \<^verbatim>\<open>Total de paginas do livro: ${n} paginas\<close>,
  \<^verbatim>\<open>Tempo estimado de leitura: ${minutes} minutos\<close>,
  \<^verbatim>\<open>Nao foi possivel detectar o total de paginas. Continuando leitura...\<close>,
  \<^verbatim>\<open>Intervalo entre paginas: ${interval} segundos\<close>, \<^verbatim>\<open>Fim do livro alcancado!\<close>,
  \<^verbatim>\<open>Todas as paginas foram lidas!\<close>, \<^verbatim>\<open>Automacao interrompida pelo usuario\<close>,
  \<^verbatim>\<open>Total de paginas viradas: ${n}\<close>, \<^verbatim>\<open>Automacao pausada\<close>, \<^verbatim>\<open>Automacao retomada\<close>
  and \<^verbatim>\<open>Parando automacao...\<close>.
\<close>

datatype log_text =
    Iniciando_navegador
  | Navegador_iniciado
  | Erro string
  | Acessando_login
  | Dom_log string
  | Abrindo_livro string
  | Livro_carregado string
  | Total_detectado nat
  | Total_nao_detectado
  | Iniciando_leitura
  | Total_do_livro nat
  | Tempo_estimado int
  | Total_nao_detectado_continuando
  | Intervalo real
  | Fim_do_livro
  | Todas_lidas
  | Interrompida
  | Total_viradas nat
  | Automacao_pausada
  | Automacao_retomada
  | Parando_automacao

text \<open>
  What the engine emits: \<^verbatim>\<open>stateChange\<close> (with the optional book title and user
  identifier), \<^verbatim>\<open>progress\<close>, \<^verbatim>\<open>log\<close>, \<^verbatim>\<open>error\<close> and \<^verbatim>\<open>completed\<close>.
\<close>

datatype event =
    StateChange AutomationState "string option" "string option"
  | Progress ProgressData
  | Log LogType log_text
  | ErrorEvent string
  | CompletedEvent CompletedData

text \<open>
  The fields of \<^verbatim>\<open>AutomationService\<close>. \<open>browser\<close> and \<open>page\<close> say whether the handle is
  non-null. Times are milliseconds as \<^verbatim>\<open>Date.now()\<close> gives them; every function that reads
  the clock takes the reading as its argument \<open>now\<close>. Numbers that the source computes in
  floating point are real numbers here.
\<close>

record engine =
  browser :: bool
  page :: bool
  config :: "AutomationConfig option"
  isPaused :: bool
  shouldStop :: bool
  currentPage :: nat
  totalPages :: "nat option"
  startTime :: int
  pausedTime :: int
  lastPauseStart :: int
  bookQueueId :: "string option"

text \<open>Truthiness of \<^verbatim>\<open>number | null\<close> and of \<^verbatim>\<open>string | null | undefined\<close>.\<close>

definition truthy_num :: "nat option \<Rightarrow> bool" where
  "truthy_num v = (case v of None \<Rightarrow> False | Some n \<Rightarrow> n \<noteq> 0)"

definition truthy_str :: "string option \<Rightarrow> bool" where
  "truthy_str v = (case v of None \<Rightarrow> False | Some s \<Rightarrow> s \<noteq> [])"

definition or_none :: "string option \<Rightarrow> string option" where
  "or_none v = (if truthy_str v then v else None)"

section \<open>Telemetry\<close>

definition getElapsedTime :: "engine \<Rightarrow> int \<Rightarrow> real" where
  "getElapsedTime e now =
     (if startTime e = 0 then 0
      else real_of_int (now - startTime e - pausedTime e) / 1000)"

definition progressData :: "engine \<Rightarrow> int \<Rightarrow> ProgressData" where
  "progressData e now =
     (let elapsedTime = getElapsedTime e now;
          percentage =
            (if truthy_num (totalPages e)
             then (real (currentPage e) / real (the (totalPages e))) * 100
             else 0);
          estimatedTimeRemaining =
            (if truthy_num (totalPages e) \<and> currentPage e > 0 \<and> percentage > 0
             then Some ((elapsedTime / real (currentPage e))
                        * (real (the (totalPages e)) - real (currentPage e)))
             else None)
      in \<lparr> pd_currentPage = currentPage e,
           pd_totalPages = totalPages e,
           pd_percentage = percentage,
           pd_elapsedTime = elapsedTime,
           pd_estimatedTimeRemaining = estimatedTimeRemaining \<rparr>)"

definition emitProgress :: "engine \<Rightarrow> int \<Rightarrow> event" where
  "emitProgress e now = Progress (progressData e now)"

definition completedData :: "engine \<Rightarrow> int \<Rightarrow> CompletedData" where
  "completedData e now =
     \<lparr> cd_bookQueueId = or_none (bookQueueId e),
       cd_pagesRead = currentPage e,
       cd_totalPages = (if truthy_num (totalPages e) then the (totalPages e) else currentPage e),
       cd_timeSpent = getElapsedTime e now \<rparr>"

definition emitCompleted :: "engine \<Rightarrow> int \<Rightarrow> event" where
  "emitCompleted e now = CompletedEvent (completedData e now)"

section \<open>Pause, resume and stop\<close>

definition pause :: "engine \<Rightarrow> int \<Rightarrow> engine \<times> event list" where
  "pause e now =
     (if \<not> isPaused e
      then (e\<lparr>isPaused := True, lastPauseStart := now\<rparr>,
            [StateChange Paused None None, Log LInfo Automacao_pausada])
      else (e, []))"

definition resume :: "engine \<Rightarrow> int \<Rightarrow> engine \<times> event list" where
  "resume e now =
     (if isPaused e
      then (e\<lparr>isPaused := False, pausedTime := pausedTime e + (now - lastPauseStart e)\<rparr>,
            [StateChange Reading None None, Log LInfo Automacao_retomada])
      else (e, []))"

definition stop :: "engine \<Rightarrow> engine \<times> event list" where
  "stop e = (e\<lparr>shouldStop := True, isPaused := False\<rparr>, [Log LWarning Parando_automacao])"

text \<open>
  The spec's reading of the percentage when the total is unknown: the last value supplied
  from outside, \<open>supplied\<close>.
\<close>

definition spec_percentage :: "real \<Rightarrow> nat \<Rightarrow> nat option \<Rightarrow> real" where
  "spec_percentage supplied cur tot =
     (case tot of Some t \<Rightarrow> real cur / real t * 100 | None \<Rightarrow> supplied)"

text \<open>A fresh engine, as the field initialisers of the class leave it.\<close>

definition new_engine :: engine where
  "new_engine =
     \<lparr> browser = False, page = False, config = None, isPaused = False, shouldStop = False,
       currentPage = 0, totalPages = None, startTime = 0, pausedTime = 0,
       lastPauseStart = 0, bookQueueId = None \<rparr>"

section \<open>Signals and awaits\<close>

text \<open>
  The engine runs on one thread: while it is suspended in an \<^verbatim>\<open>await\<close>, the handlers of the
  commands that arrive (\<^verbatim>\<open>pause\<close>, \<^verbatim>\<open>resume\<close>, \<^verbatim>\<open>stop\<close>) run to completion. A signal is a
  command with the clock reading its handler sees. An \<open>awaited\<close> value scripts one
  \<^verbatim>\<open>await\<close>: the signals delivered while the engine is suspended, the clock when it
  wakes up, and what the awaited promise gave. A rejected promise is \<open>Inl\<close> of what was
  thrown. The events of the delivered signals are placed before the events the engine
  emits after waking up.
\<close>

datatype command = Pause_cmd | Resume_cmd | Stop_cmd

type_synonym signal = "command \<times> int"

datatype exn = JsError string | NonError

datatype 'a awaited = Awaited (signals: "signal list") (wake: int) (result: 'a)

text \<open>\<^verbatim>\<open>error instanceof Error ? error.message : dflt\<close>\<close>

definition message_or :: "string \<Rightarrow> exn \<Rightarrow> string" where
  "message_or dflt x = (case x of JsError m \<Rightarrow> m | NonError \<Rightarrow> dflt)"

fun deliver1 :: "engine \<Rightarrow> signal \<Rightarrow> engine \<times> event list" where
  "deliver1 e (Pause_cmd, t) = pause e t"
| "deliver1 e (Resume_cmd, t) = resume e t"
| "deliver1 e (Stop_cmd, t) = stop e"

fun deliver :: "engine \<Rightarrow> signal list \<Rightarrow> engine \<times> event list" where
  "deliver e [] = (e, [])"
| "deliver e (s # ss) =
     (let (e1, ev1) = deliver1 e s; (e2, ev2) = deliver e1 ss in (e2, ev1 @ ev2))"

section \<open>The reading loop\<close>

text \<open>
  One iteration of the \<^verbatim>\<open>while (!this.shouldStop)\<close> loop of \<^verbatim>\<open>readPages\<close> is scripted by
  a \<open>turn\<close>: the 100 ms sleeps of the pause wait, the query for the next-page button
  (\<open>Inr True\<close>: an element, \<open>Inr False\<close>: null), the queries for the six alternative
  selectors by index, the click on an alternative (its rejection is swallowed), the
  evaluation of the disabled test, the click on the button together with its fallback
  (\<open>Inl\<close> when the fallback throws), the new probe for the total (\<^verbatim>\<open>getTotalPages\<close> catches
  what its queries throw), and the sleep that ends the iteration: the interval, or the one
  second after a failed attempt.
\<close>

record turn =
  waits :: "unit awaited list"
  primaryQuery :: "(exn + bool) awaited"
  altQueries :: "nat \<Rightarrow> (exn + bool) awaited"
  altClick :: "unit awaited"
  disabledEval :: "(exn + bool) awaited"
  click :: "(exn + unit) awaited"
  reprobe :: "nat option awaited"
  sleepAfter :: "unit awaited"

datatype turn_end = Next | End_of_book | All_pages_read

datatype scan_end = Found | Not_found | Scan_threw exn

datatype loop_end = Ended_book | Ended_all_read | Stopped | Waiting | Not_entered

text \<open>The default message of the loop's \<^verbatim>\<open>catch\<close>; the accented letter is U+00E1.\<close>

definition msg_virar_pagina :: string where
  "msg_virar_pagina = ''Erro ao virar p'' @ [CHR 0xE1] @ ''gina''"

text \<open>
  \<^verbatim>\<open>while (this.isPaused && !this.shouldStop) await this.sleep(100)\<close>. The flag of the
  result is False when the script has no sleep left and the engine is still waiting.
\<close>

fun pauseWait :: "engine \<Rightarrow> unit awaited list \<Rightarrow> engine \<times> event list \<times> bool" where
  "pauseWait e [] = (e, [], \<not> (isPaused e \<and> \<not> shouldStop e))"
| "pauseWait e (w # ws) =
     (if isPaused e \<and> \<not> shouldStop e
      then (let (e1, ev1) = deliver e (signals w);
                (e2, ev2, ok) = pauseWait e1 ws
            in (e2, ev1 @ ev2, ok))
      else (e, [], True))"

text \<open>The two places that treat the missing or disabled control as the end of the book.\<close>

definition endOfBook :: "engine \<Rightarrow> int \<Rightarrow> event list" where
  "endOfBook e now =
     [Log LSuccess Fim_do_livro, emitCompleted e now, StateChange Completed None None]"

text \<open>The \<^verbatim>\<open>catch\<close> of the loop body: log the error, sleep one second, go on.\<close>

definition backoff :: "engine \<Rightarrow> turn \<Rightarrow> exn \<Rightarrow> engine \<times> event list \<times> turn_end" where
  "backoff e t x =
     (let (e1, ev1) = deliver e (signals (sleepAfter t))
      in (e1, Log LError (Erro (message_or msg_virar_pagina x)) # ev1, Next))"

text \<open>The loop over \<^verbatim>\<open>altSelectors\<close>: the first alternative that resolves is clicked.\<close>

fun altScan ::
  "engine \<Rightarrow> (exn + bool) awaited list \<Rightarrow> unit awaited \<Rightarrow> int
    \<Rightarrow> engine \<times> event list \<times> int \<times> scan_end" where
  "altScan e [] c now = (e, [], now, Not_found)"
| "altScan e (q # qs) c now =
     (let (e1, ev1) = deliver e (signals q)
      in case result q of
           Inl x \<Rightarrow> (e1, ev1, wake q, Scan_threw x)
         | Inr True \<Rightarrow>
             (let (e2, ev2) = deliver e1 (signals c) in (e2, ev1 @ ev2, wake c, Found))
         | Inr False \<Rightarrow>
             (let (e2, ev2, now2, r) = altScan e1 qs c (wake q)
              in (e2, ev1 @ ev2, now2, r)))"

text \<open>From \<^verbatim>\<open>this.currentPage++\<close> to the sleep of the interval.\<close>

definition afterClick :: "engine \<Rightarrow> turn \<Rightarrow> int \<Rightarrow> engine \<times> event list \<times> turn_end" where
  "afterClick e t now =
     (let e1 = e\<lparr>currentPage := currentPage e + 1\<rparr>;
          ev1 = [emitProgress e1 now];
          (e2, ev2, now2) =
            (if \<not> truthy_num (totalPages e1)
             then (let (e', ev') = deliver e1 (signals (reprobe t));
                       newTotal = result (reprobe t);
                       now' = wake (reprobe t)
                   in if truthy_num newTotal \<and> newTotal \<noteq> totalPages e'
                      then (let e'' = e'\<lparr>totalPages := newTotal\<rparr>
                            in (e'',
                                ev' @ [Log LInfo (Total_detectado (the newTotal)),
                                       emitProgress e'' now'],
                                now'))
                      else (e', ev', now'))
             else (e1, [], now))
      in if truthy_num (totalPages e2) \<and> currentPage e2 \<ge> the (totalPages e2)
         then (e2,
               ev1 @ ev2 @ [Log LSuccess Todas_lidas, emitCompleted e2 now2,
                            StateChange Completed None None],
               All_pages_read)
         else (let (e3, ev3) = deliver e2 (signals (sleepAfter t))
               in (e3, ev1 @ ev2 @ ev3, Next)))"

text \<open>The \<^verbatim>\<open>try\<close> block of the loop body with its \<^verbatim>\<open>catch\<close>.\<close>

definition pageTurn :: "engine \<Rightarrow> turn \<Rightarrow> engine \<times> event list \<times> turn_end" where
  "pageTurn e t =
     (let (e1, ev1) = deliver e (signals (primaryQuery t));
          now1 = wake (primaryQuery t)
      in case result (primaryQuery t) of
           Inl x \<Rightarrow> (let (e2, ev2, r) = backoff e1 t x in (e2, ev1 @ ev2, r))
         | Inr False \<Rightarrow>
             (let (e2, ev2, now2, found) =
                    altScan e1 (map (altQueries t) [0..<6]) (altClick t) now1
              in case found of
                   Scan_threw x \<Rightarrow>
                     (let (e3, ev3, r) = backoff e2 t x in (e3, ev1 @ ev2 @ ev3, r))
                 | Not_found \<Rightarrow> (e2, ev1 @ ev2 @ endOfBook e2 now2, End_of_book)
                 | Found \<Rightarrow>
                     (let (e3, ev3, r) = afterClick e2 t now2 in (e3, ev1 @ ev2 @ ev3, r)))
         | Inr True \<Rightarrow>
             (let (e2, ev2) = deliver e1 (signals (disabledEval t));
                  now2 = wake (disabledEval t)
              in case result (disabledEval t) of
                   Inl x \<Rightarrow>
                     (let (e3, ev3, r) = backoff e2 t x in (e3, ev1 @ ev2 @ ev3, r))
                 | Inr True \<Rightarrow> (e2, ev1 @ ev2 @ endOfBook e2 now2, End_of_book)
                 | Inr False \<Rightarrow>
                     (let (e3, ev3) = deliver e2 (signals (click t));
                          now3 = wake (click t)
                      in case result (click t) of
                           Inl x \<Rightarrow>
                             (let (e4, ev4, r) = backoff e3 t x
                              in (e4, ev1 @ ev2 @ ev3 @ ev4, r))
                         | Inr u \<Rightarrow>
                             (let (e4, ev4, r) = afterClick e3 t now3
                              in (e4, ev1 @ ev2 @ ev3 @ ev4, r)))))"

text \<open>
  The loop, one turn of the script per iteration. \<open>Waiting\<close> is the result when the script
  ends while the loop is still running.
\<close>

fun readLoop :: "engine \<Rightarrow> turn list \<Rightarrow> engine \<times> event list \<times> loop_end" where
  "readLoop e [] = (e, [], if shouldStop e then Stopped else Waiting)"
| "readLoop e (t # ts) =
     (if shouldStop e then (e, [], Stopped)
      else (let (e1, ev1, ok) = pauseWait e (waits t)
            in if \<not> ok then (e1, ev1, Waiting)
               else if shouldStop e1 then (e1, ev1, Stopped)
               else (let (e2, ev2, r) = pageTurn e1 t
                     in case r of
                          Next \<Rightarrow>
                            (let (e3, ev3, fin) = readLoop e2 ts
                             in (e3, ev1 @ ev2 @ ev3, fin))
                        | End_of_book \<Rightarrow> (e2, ev1 @ ev2, Ended_book)
                        | All_pages_read \<Rightarrow> (e2, ev1 @ ev2, Ended_all_read))))"

record read_script =
  preSleep :: "unit awaited"
  preProbe :: "nat option awaited"
  turns :: "turn list"

text \<open>
  \<^verbatim>\<open>readPages\<close>: the state event, the first probe for the total, the loop, and the lines
  after the loop. The interval is the configured one; without page or configuration the
  function returns at once.
\<close>

definition readPages :: "engine \<Rightarrow> read_script \<Rightarrow> engine \<times> event list \<times> loop_end" where
  "readPages e rs =
     (if \<not> page e \<or> config e = None then (e, [], Not_entered)
      else
        (let interval = cfg_interval (the (config e));
             (e1, ev1) = deliver e (signals (preSleep rs));
             (e2, ev2) = deliver e1 (signals (preProbe rs));
             e3 = e2\<lparr>totalPages := result (preProbe rs)\<rparr>;
             now3 = wake (preProbe rs);
             ev3 = (if truthy_num (totalPages e3)
                    then [Log LSuccess (Total_do_livro (the (totalPages e3))),
                          Log LInfo (Tempo_estimado
                            \<lceil>real (the (totalPages e3)) * interval / 60\<rceil>)]
                    else [Log LWarning Total_nao_detectado_continuando])
                   @ [Log LInfo (Intervalo interval), emitProgress e3 now3];
             (e4, ev4, fin) = readLoop e3 (turns rs);
             pre = [StateChange Reading None None, Log LInfo Iniciando_leitura]
                   @ ev1 @ ev2 @ ev3 @ ev4
         in if fin = Waiting then (e4, pre, Waiting)
            else (e4,
                  pre
                  @ (if shouldStop e4
                     then [Log LWarning Interrompida, StateChange Idle None None] else [])
                  @ [Log LInfo (Total_viradas (currentPage e4))],
                  fin)))"

text \<open>The completed events of a trace, in order.\<close>

fun completedOf :: "event \<Rightarrow> CompletedData list" where
  "completedOf (CompletedEvent d) = [d]"
| "completedOf ev = []"

definition completed_events :: "event list \<Rightarrow> CompletedData list" where
  "completed_events evs = concat (map completedOf evs)"

section \<open>The run\<close>







text \<open>
  How the \<^verbatim>\<open>try\<close> block of \<^verbatim>\<open>start\<close> ends: it went through \<^verbatim>\<open>readPages\<close>, it returned
  early because the stop flag was set after the login or after the book was opened, or
  something was thrown.
\<close>

datatype body_end = Body_read loop_end | Body_stopped | Body_threw exn






definition returned :: "body_end \<Rightarrow> bool" where
  "returned r \<longleftrightarrow> r \<noteq> Body_read Waiting"

section \<open>The telemetry bridge and the store\<close>












section \<open>The session registry\<close>


section \<open>The start command and the configuration schema\<close>

text \<open>
  A value as \<^verbatim>\<open>JSON.parse\<close> gives it. An object keeps the last of the members that share
  a key. An optional argument is \<open>None\<close> for \<^verbatim>\<open>undefined\<close>.
\<close>

datatype json =
    JNull | JBool bool | JNum real | JStr string | JArr "json list"
  | JObj "(string \<times> json) list"

definition member :: "(string \<times> json) list \<Rightarrow> string \<Rightarrow> json option" where
  "member kvs k = map_of (rev kvs) k"

text \<open>
  \<^verbatim>\<open>/^\d+[a-zA-Z]{2}$/\<close>: one or more digits, then exactly two letters, and nothing
  else.
\<close>

definition ra_regex :: "string \<Rightarrow> bool" where
  "ra_regex s \<longleftrightarrow>
     length s \<ge> 3 \<and> list_all is_digit (take (length s - 2) s)
     \<and> list_all is_letter (drop (length s - 2) s)"

text \<open>\<^verbatim>\<open>z.string().min(1)\<close>, with the regular expression, optional, and the interval.\<close>

definition z_string_min1 :: "json option \<Rightarrow> string option" where
  "z_string_min1 v =
     (case v of Some (JStr s) \<Rightarrow> if length s \<ge> 1 then Some s else None | _ \<Rightarrow> None)"

definition z_ra :: "json option \<Rightarrow> string option" where
  "z_ra v =
     (case z_string_min1 v of Some s \<Rightarrow> if ra_regex s then Some s else None
      | None \<Rightarrow> None)"

definition z_string_optional :: "json option \<Rightarrow> string option option" where
  "z_string_optional v =
     (case v of None \<Rightarrow> Some None | Some (JStr s) \<Rightarrow> Some (Some s) | _ \<Rightarrow> None)"

text \<open>\<^verbatim>\<open>z.number().min(60).max(300).default(60)\<close>: the default is for a missing value only.\<close>

definition z_interval :: "json option \<Rightarrow> real option" where
  "z_interval v =
     (case v of
        None \<Rightarrow> Some 60
      | Some (JNum x) \<Rightarrow> if 60 \<le> x \<and> x \<le> 300 then Some x else None
      | _ \<Rightarrow> None)"

text \<open>
  \<^verbatim>\<open>automationConfigSchema.safeParse\<close>: \<open>Some\<close> of the parsed configuration on success,
  \<open>None\<close> on failure.
\<close>

definition automationConfigSchema :: "json option \<Rightarrow> AutomationConfig option" where
  "automationConfigSchema payload =
     (case payload of
        Some (JObj kvs) \<Rightarrow>
          (case (z_ra (member kvs ''ra''), z_string_min1 (member kvs ''password''),
                 z_string_min1 (member kvs ''bookSlug''), z_interval (member kvs ''interval''),
                 z_string_optional (member kvs ''bookQueueId'')) of
             (Some r, Some p, Some b, Some i, Some q) \<Rightarrow>
               Some \<lparr> cfg_ra = r, cfg_password = p, cfg_bookSlug = b, cfg_interval = i,
                      cfg_bookQueueId = q \<rparr>
           | _ \<Rightarrow> None)
      | _ \<Rightarrow> None)"

text \<open>
  The \<^verbatim>\<open>start\<close> case of the message handler: the run is started with the parsed
  configuration, or the error message \<^verbatim>\<open>Configuracao invalida\<close> (written with its accents,
  U+00E7 U+00E3 and U+00E1) is sent and nothing is started.
\<close>

datatype start_reply = Run_started AutomationConfig | Rejected string

definition msg_configuracao_invalida :: string where
  "msg_configuracao_invalida =
     ''Configura'' @ [CHR 0xE7, CHR 0xE3] @ ''o inv'' @ [CHR 0xE1] @ ''lida''"

definition on_start :: "json option \<Rightarrow> start_reply" where
  "on_start payload =
     (case automationConfigSchema payload of
        Some cfg \<Rightarrow> Run_started cfg
      | None \<Rightarrow> Rejected msg_configuracao_invalida)"

text \<open>The spec's reading of the interval: clamped into the range.\<close>

definition spec_clamp :: "real \<Rightarrow> real" where
  "spec_clamp x = max 60 (min 300 x)"

text \<open>The payload of a start command with the given interval.\<close>

definition start_payload :: "real \<Rightarrow> json" where
  "start_payload x =
     JObj [(''ra'', JStr ''00001152877136sp''), (''password'', JStr ''secret''),
           (''bookSlug'', JStr ''livro''), (''interval'', JNum x)]"

section \<open>The catalog scrape\<close>

record AvailableBook =
  ab_id :: string
  ab_title :: string
  ab_coverUrl :: string
  ab_slug :: string
  ab_category :: string

record BookCategory =
  bc_name :: string
  bc_books :: "AvailableBook list"

text \<open>A number in a template literal: its decimal digits.\<close>

definition digit_char :: "nat \<Rightarrow> char" where
  "digit_char n = char_of (48 + n)"

function dec :: "nat \<Rightarrow> string" where
  "dec n = (if n < 10 then [digit_char n] else dec (n div 10) @ [digit_char (n mod 10)])"
  by pat_completeness auto
termination
  by (relation "measure id") auto

text \<open>\<^verbatim>\<open>s.includes(k)\<close>, named \<open>str_includes\<close> as \<open>includes\<close> is reserved\<close>

fun str_includes :: "string \<Rightarrow> string \<Rightarrow> bool" where
  "str_includes [] k = (k = [])"
| "str_includes (c # cs) k = (take (length k) (c # cs) = k \<or> str_includes cs k)"

text \<open>
  \<^verbatim>\<open>href.match(/\/(?:livro|book|reader)\/([^/?]+)/)\<close>: the leftmost place where one of the
  three path segments is followed by at least one character other than \<^verbatim>\<open>/\<close> and \<^verbatim>\<open>?\<close>;
  the capture is the longest run of such characters.
\<close>

definition capture_after :: "string \<Rightarrow> string \<Rightarrow> string option" where
  "capture_after p s =
     (if take (length p) s = p
      then (let cap = takeWhile (\<lambda>c. c \<noteq> CHR ''/'' \<and> c \<noteq> CHR ''?'') (drop (length p) s)
            in if cap = [] then None else Some cap)
      else None)"

fun match_slug :: "string \<Rightarrow> string option" where
  "match_slug [] = None"
| "match_slug (c # cs) =
     (case capture_after ''/livro/'' (c # cs) of
        Some m \<Rightarrow> Some m
      | None \<Rightarrow>
          (case capture_after ''/book/'' (c # cs) of
             Some m \<Rightarrow> Some m
           | None \<Rightarrow>
               (case capture_after ''/reader/'' (c # cs) of
                  Some m \<Rightarrow> Some m
                | None \<Rightarrow> match_slug cs)))"

text \<open>\<^verbatim>\<open>href.split("/").filter(Boolean)\<close> and its last element, or the empty string.\<close>

fun split_on :: "char \<Rightarrow> string \<Rightarrow> string list" where
  "split_on d [] = [[]]"
| "split_on d (c # cs) =
     (if c = d then [] # split_on d cs
      else (case split_on d cs of w # ws \<Rightarrow> (c # w) # ws | [] \<Rightarrow> [[c]]))"

definition last_segment :: "string \<Rightarrow> string" where
  "last_segment href =
     (let parts = filter (\<lambda>p. p \<noteq> []) (split_on CHR ''/'' href)
      in if parts = [] then [] else last parts)"

text \<open>The slug that the card's script computes from the link of the card.\<close>

definition card_slug :: "string \<Rightarrow> string" where
  "card_slug href =
     (if href \<noteq> []
      then (case match_slug href of Some m \<Rightarrow> m | None \<Rightarrow> last_segment href)
      else [])"

text \<open>
  \<^verbatim>\<open>title.toLowerCase().replace(/\s+/g, "-").replace(/[^a-z0-9-]/g, "")\<close>: the slug derived
  from the title.
\<close>

function dash_spaces :: "string \<Rightarrow> string" where
  "dash_spaces [] = []"
| "dash_spaces (c # cs) =
     (if is_space c then CHR ''-'' # dash_spaces (dropWhile is_space cs)
      else c # dash_spaces cs)"
  by pat_completeness auto
termination
  by (relation "measure length") (auto simp: length_dropWhile_le less_Suc_eq_le)

definition title_slug :: "string \<Rightarrow> string" where
  "title_slug title =
     filter (\<lambda>c. is_lower c \<or> is_digit c \<or> c = CHR ''-'') (dash_spaces (toLowerCase title))"

text \<open>
  What the script evaluated in a card gives: cover, title and link, already defaulted to
  the empty string. An evaluation comes with the clock of the moment its book is pushed,
  and is \<open>Inl\<close> when it throws (the loop then goes on with the next element).
\<close>

record card =
  card_coverUrl :: string
  card_title :: string
  card_href :: string

type_synonym evaluations = "(nat \<times> (exn + card)) list"

definition book_id :: "nat \<Rightarrow> nat \<Rightarrow> string" where
  "book_id n now = ''book-'' @ dec n @ ''-'' @ dec now"

text \<open>The loop over the cards of one category.\<close>

fun collectCards :: "string \<Rightarrow> AvailableBook list \<Rightarrow> evaluations \<Rightarrow> AvailableBook list" where
  "collectCards cat books [] = books"
| "collectCards cat books ((now, r) # rest) =
     (case r of
        Inl x \<Rightarrow> collectCards cat books rest
      | Inr bookData \<Rightarrow>
          if card_title bookData \<noteq> [] \<and> length (card_title bookData) > 2
             \<and> length (card_title bookData) < 200
          then collectCards cat
                 (books @ [\<lparr> ab_id = book_id (length books) now,
                             ab_title = card_title bookData,
                             ab_coverUrl = card_coverUrl bookData,
                             ab_slug = (if card_slug (card_href bookData) \<noteq> []
                                        then card_slug (card_href bookData)
                                        else title_slug (card_title bookData)),
                             ab_category = cat \<rparr>])
                 rest
          else collectCards cat books rest)"

text \<open>The headings that count as categories: a name with one of the marker words.\<close>

definition category_marker :: "string \<Rightarrow> bool" where
  "category_marker n \<longleftrightarrow>
     str_includes n ''Leitura'' \<or> str_includes n ''Ano'' \<or> str_includes n ''Bimestre''
     \<or> str_includes n ''Sugerida''"

definition skip_heading :: "string list \<Rightarrow> string \<Rightarrow> bool" where
  "skip_heading processed n \<longleftrightarrow>
     n = [] \<or> length n < 5 \<or> length n > 100 \<or> n \<in> set processed \<or> \<not> category_marker n"

text \<open>
  The loop over the heading elements. A heading is scripted by its trimmed text and the
  evaluations of the cards queried for it, or by what its evaluation or that query throws,
  which nothing in \<^verbatim>\<open>scrapeBooks\<close> catches.
\<close>

fun scanHeadings ::
  "string list \<Rightarrow> BookCategory list \<Rightarrow> (exn + string \<times> evaluations) list
    \<Rightarrow> exn + BookCategory list" where
  "scanHeadings processed categories [] = Inr categories"
| "scanHeadings processed categories (h # hs) =
     (case h of
        Inl x \<Rightarrow> Inl x
      | Inr (categoryName, cards) \<Rightarrow>
          if skip_heading processed categoryName
          then scanHeadings processed categories hs
          else (let books = collectCards categoryName [] cards
                in scanHeadings (categoryName # processed)
                     (if length books > 0
                      then categories @ [\<lparr> bc_name = categoryName, bc_books = take 20 books \<rparr>]
                      else categories)
                     hs))"

text \<open>The name of the synthetic category; its accented letter is U+00ED.\<close>

definition fallback_name :: string where
  "fallback_name = ''Livros Dispon'' @ [CHR 0xED] @ ''veis''"

text \<open>The loop over the images of the fallback scan; here the card's title is the image's.\<close>

fun collectImages :: "AvailableBook list \<Rightarrow> evaluations \<Rightarrow> AvailableBook list" where
  "collectImages allBooks [] = allBooks"
| "collectImages allBooks ((now, r) # rest) =
     (case r of
        Inl x \<Rightarrow> collectImages allBooks rest
      | Inr bookData \<Rightarrow>
          if card_title bookData \<noteq> [] \<and> card_coverUrl bookData \<noteq> []
          then (let slug = (if card_href bookData \<noteq> []
                            then (case match_slug (card_href bookData) of
                                    Some m \<Rightarrow> m | None \<Rightarrow> [])
                            else [])
                in collectImages
                     (allBooks @ [\<lparr> ab_id = book_id (length allBooks) now,
                                    ab_title = card_title bookData,
                                    ab_coverUrl = card_coverUrl bookData,
                                    ab_slug = (if slug \<noteq> [] then slug
                                               else title_slug (card_title bookData)),
                                    ab_category = fallback_name \<rparr>])
                     rest)
          else collectImages allBooks rest)"

text \<open>
  \<^verbatim>\<open>scrapeBooks\<close>: \<open>arrive\<close> is what the scrolling and the query for the headings throw, if
  anything; \<open>images\<close> the evaluations of the fallback scan, or what its query throws.
\<close>

record scrape_script =
  arrive :: "exn option"
  headings :: "(exn + string \<times> evaluations) list"
  images :: "exn + evaluations"

definition scrapeBooks :: "bool \<Rightarrow> scrape_script \<Rightarrow> exn + BookCategory list" where
  "scrapeBooks has_page sc =
     (if \<not> has_page then Inr []
      else case arrive sc of
             Some x \<Rightarrow> Inl x
           | None \<Rightarrow>
               (case scanHeadings [] [] (headings sc) of
                  Inl x \<Rightarrow> Inl x
                | Inr categories \<Rightarrow>
                    if length categories = 0
                    then (case images sc of
                            Inl x \<Rightarrow> Inl x
                          | Inr imgs \<Rightarrow>
                              (let allBooks = collectImages [] imgs
                               in Inr (if length allBooks > 0
                                       then [\<lparr> bc_name = fallback_name,
                                               bc_books = take 50 allBooks \<rparr>]
                                       else [])))
                    else Inr categories))"

section \<open>Frames and postconditions\<close>



text \<open>
  What the signals never touch: the page counter, the total, the queue entry, the start
  time, the handles and the configuration.
\<close>

definition frame :: "engine \<Rightarrow> engine \<Rightarrow> bool" where
  "frame e e' \<longleftrightarrow>
     currentPage e' = currentPage e \<and> totalPages e' = totalPages e
     \<and> bookQueueId e' = bookQueueId e \<and> startTime e' = startTime e
     \<and> browser e' = browser e \<and> page e' = page e \<and> config e' = config e"

text \<open>What a whole run of the loop never touches.\<close>

definition kept :: "engine \<Rightarrow> engine \<Rightarrow> bool" where
  "kept e e' \<longleftrightarrow>
     bookQueueId e' = bookQueueId e \<and> startTime e' = startTime e
     \<and> browser e' = browser e \<and> page e' = page e \<and> config e' = config e"



text \<open>
  What one iteration and what the whole loop guarantee about their completed events: none
  while the loop goes on, one carrying the state at the end when the book is finished.
\<close>

definition turn_post :: "engine \<Rightarrow> engine \<Rightarrow> event list \<Rightarrow> turn_end \<Rightarrow> bool" where
  "turn_post e e' evs r \<longleftrightarrow>
     kept e e'
     \<and> (r = Next \<longrightarrow> completed_events evs = [])
     \<and> (r \<noteq> Next \<longrightarrow> (\<exists>n. completed_events evs = [completedData e' n]))
     \<and> (r = End_of_book \<longrightarrow> currentPage e' = currentPage e)"

definition loop_post :: "engine \<Rightarrow> engine \<Rightarrow> event list \<Rightarrow> loop_end \<Rightarrow> bool" where
  "loop_post e e' evs fin \<longleftrightarrow>
     kept e e' \<and> fin \<noteq> Not_entered
     \<and> (fin = Stopped \<or> fin = Waiting \<longrightarrow> completed_events evs = [])
     \<and> (fin = Stopped \<longrightarrow> shouldStop e')
     \<and> (fin = Ended_book \<or> fin = Ended_all_read \<longrightarrow>
          (\<exists>n. completed_events evs = [completedData e' n]))"

text \<open>
  What the \<^verbatim>\<open>try\<close> block of \<^verbatim>\<open>start\<close> guarantees about its completed events: one when it
  ends with the book finished, none otherwise.
\<close>

definition body_post :: "engine \<Rightarrow> engine \<Rightarrow> event list \<Rightarrow> body_end \<Rightarrow> bool" where
  "body_post e e' evs r \<longleftrightarrow>
     bookQueueId e' = bookQueueId e
     \<and> (if r = Body_read Ended_book \<or> r = Body_read Ended_all_read
         then \<exists>n. completed_events evs = [completedData e' n]
         else completed_events evs = [])"




section \<open>Example inputs\<close>

text \<open>An await during which nothing arrives, and an engine in the reading state.\<close>

definition quiet :: "int \<Rightarrow> 'a \<Rightarrow> 'a awaited" where
  "quiet t r = Awaited [] t r"

definition example_config :: AutomationConfig where
  "example_config =
     \<lparr> cfg_ra = ''00001152877136sp'', cfg_password = ''secret'', cfg_bookSlug = ''livro'',
       cfg_interval = 60, cfg_bookQueueId = Some ''q1'' \<rparr>"

definition reading_engine :: engine where
  "reading_engine =
     new_engine\<lparr>browser := True, page := True, config := Some example_config,
                currentPage := 3, startTime := 1000, bookQueueId := Some ''q1''\<rparr>"





text \<open>
  A turn during which the operator pauses: the command arrives at clock 101000 while the
  query for the button is awaited, and the click has resolved by 103000.
\<close>

definition paused_turn :: turn where
  "paused_turn =
     \<lparr> waits = [], primaryQuery = Awaited [(Pause_cmd, 101000)] 101500 (Inr True),
       altQueries = (\<lambda>i. quiet 101500 (Inr False)), altClick = quiet 101500 (),
       disabledEval = quiet 102000 (Inr False), click = quiet 103000 (Inr ()),
       reprobe = quiet 103500 None, sleepAfter = quiet 163500 () \<rparr>"

text \<open>The elapsed times that the progress events of a trace report, in order.\<close>

fun elapsedOf :: "event \<Rightarrow> real list" where
  "elapsedOf (Progress p) = [pd_elapsedTime p]"
| "elapsedOf ev = []"

definition progress_elapsed :: "event list \<Rightarrow> real list" where
  "progress_elapsed evs = concat (map elapsedOf evs)"







text \<open>Scrape scripts: a page with one heading and 21 cards, and a page with 51 images only.\<close>

definition example_card :: "nat \<times> (exn + card)" where
  "example_card = (7, Inr \<lparr> card_coverUrl = ''c'', card_title = ''Dom'', card_href = [] \<rparr>)"

definition heading_script :: scrape_script where
  "heading_script =
     \<lparr> arrive = None, headings = [Inr (''1 Ano'', replicate 21 example_card)],
       images = Inr [] \<rparr>"

definition image_script :: scrape_script where
  "image_script = \<lparr> arrive = None, headings = [], images = Inr (replicate 51 example_card) \<rparr>"

text \<open>The engine of the spec's progress example: page 30 of 120, started at clock 1000.\<close>

definition snapshot_engine :: engine where
  "snapshot_engine = new_engine\<lparr>currentPage := 30, totalPages := Some 120, startTime := 1000\<rparr>"

section \<open>Properties of the identifier decomposition\<close>


















section \<open>Properties of the telemetry\<close>

text \<open>
  Claim C2, as the spec states it: the elapsed time does not change while the engine is
  paused. On the code it does: the paused time is only added to \<open>pausedTime\<close> by
  \<open>resume\<close>, so for an engine started at clock 1000 and paused at 101000 (elapsed 100 s)
  the elapsed time computed at 151000, still paused, is 150 s. Such a value is reported:
  when the pause arrives while a page turn is under way, the progress event of that turn
  is emitted with the engine paused; in the example turn it reports 102 s at clock 103000,
  for a pause that began at 100 s.
\<close>

theorem elapsed_while_paused_counterexample:
  "getElapsedTime (fst (pause (new_engine\<lparr>startTime := 1000\<rparr>) 101000)) 151000
     \<noteq> getElapsedTime (fst (pause (new_engine\<lparr>startTime := 1000\<rparr>) 101000)) 101000
   \<and> getElapsedTime reading_engine 101000 = 100
   \<and> isPaused (fst (pageTurn reading_engine paused_turn))
   \<and> lastPauseStart (fst (pageTurn reading_engine paused_turn)) = 101000
   \<and> progress_elapsed (fst (snd (pageTurn reading_engine paused_turn))) = [102]"
proof -
  have a: "getElapsedTime (fst (pause (new_engine\<lparr>startTime := 1000\<rparr>) 101000)) 151000
     \<noteq> getElapsedTime (fst (pause (new_engine\<lparr>startTime := 1000\<rparr>) 101000)) 101000"
    by (simp add: getElapsedTime_def pause_def new_engine_def)
  have b: "getElapsedTime reading_engine 101000 = 100"
    by (simp add: getElapsedTime_def reading_engine_def new_engine_def)
  have c: "isPaused (fst (pageTurn reading_engine paused_turn))
     \<and> lastPauseStart (fst (pageTurn reading_engine paused_turn)) = 101000
     \<and> progress_elapsed (fst (snd (pageTurn reading_engine paused_turn))) = [102]"
    by code_simp
  from a b c show ?thesis by blast
qed

text \<open>
  Claim C2, amended. For a started engine the elapsed time is
  \<open>(now - startTime - pausedTime) / 1000\<close> seconds, and \<open>resume\<close> adds the length of the
  pause it ends to \<open>pausedTime\<close>: after a pause from \<open>t1\<close> to \<open>t2\<close> the elapsed time at
  \<open>t3\<close> is the unpaused one less \<open>t2 - t1\<close>. In a run that pauses after 100 s, resumes
  50 s later and runs 10 s more the elapsed time is 110 s, not 160 s.
\<close>

theorem elapsed_excludes_finished_pauses:
  assumes "startTime e \<noteq> 0" and "\<not> isPaused e"
  shows "getElapsedTime e now = real_of_int (now - startTime e - pausedTime e) / 1000
       \<and> pausedTime (fst (resume (fst (pause e t1)) t2)) = pausedTime e + (t2 - t1)
       \<and> getElapsedTime (fst (resume (fst (pause e t1)) t2)) t3
           = getElapsedTime e t3 - real_of_int (t2 - t1) / 1000
       \<and> (pausedTime e = 0 \<longrightarrow>
            getElapsedTime e (startTime e + 100000) = 100
          \<and> getElapsedTime
               (fst (resume (fst (pause e (startTime e + 100000))) (startTime e + 150000)))
               (startTime e + 160000) = 110)"
  using assms by (simp add: getElapsedTime_def pause_def resume_def field_simps)

theorem elapsed_excludes_finished_pauses_witness:
  "startTime (new_engine\<lparr>startTime := 1000\<rparr>) \<noteq> 0
   \<and> \<not> isPaused (new_engine\<lparr>startTime := 1000\<rparr>)
   \<and> pausedTime (new_engine\<lparr>startTime := 1000\<rparr>) = 0
   \<and> getElapsedTime (new_engine\<lparr>startTime := 1000\<rparr>) 101000 = 100
   \<and> getElapsedTime
        (fst (resume (fst (pause (new_engine\<lparr>startTime := 1000\<rparr>) 101000)) 151000)) 161000
       = 110"
proof -
  let ?e = "new_engine\<lparr>startTime := 1000\<rparr>"
  have h1: "startTime ?e \<noteq> 0" and h2: "\<not> isPaused ?e" and h3: "pausedTime ?e = 0"
    by (simp_all add: new_engine_def)
  have s: "startTime ?e = 1000" by simp
  show ?thesis
    using elapsed_excludes_finished_pauses [OF h1 h2, of 0 0 0 0] h1 h2 h3
    by (simp only: s) simp
qed

text \<open>
  Claim C3, as the spec states it: with the total unknown the percentage is the last value
  supplied from outside. The engine keeps no such value and reports 0: after a snapshot of
  25 percent, an engine at page 30 with no total reports 0, not 25.
\<close>

theorem percentage_unknown_total_counterexample:
  "pd_percentage (progressData (new_engine\<lparr>currentPage := 30, startTime := 1000\<rparr>) 301000)
     \<noteq> spec_percentage 25 30 None"
  by (simp add: new_engine_def progressData_def truthy_num_def Let_def spec_percentage_def)

text \<open>
  Claim C3, amended. In every progress snapshot: with a known, positive total the
  percentage is \<open>currentPage / totalPages * 100\<close>, and with no total (or total 0) it is 0;
  the estimated remaining time is \<open>(elapsed / currentPage) * (totalPages - currentPage)\<close>
  when the total is known and positive and \<open>currentPage > 0\<close>, and unknown otherwise. Page
  30 of 120 after 300 s gives 25 percent and 900 s remaining.
\<close>

theorem progress_snapshot:
  "(totalPages e = Some t \<and> t > 0 \<longrightarrow>
      pd_percentage (progressData e now) = real (currentPage e) / real t * 100)
   \<and> (\<not> truthy_num (totalPages e) \<longrightarrow> pd_percentage (progressData e now) = 0)
   \<and> (totalPages e = Some t \<and> t > 0 \<and> currentPage e > 0 \<longrightarrow>
        pd_estimatedTimeRemaining (progressData e now) =
          Some ((getElapsedTime e now / real (currentPage e)) * (real t - real (currentPage e))))
   \<and> (\<not> truthy_num (totalPages e) \<or> currentPage e = 0 \<longrightarrow>
        pd_estimatedTimeRemaining (progressData e now) = None)
   \<and> pd_elapsedTime (progressData e now) = getElapsedTime e now
   \<and> pd_currentPage (progressData e now) = currentPage e
   \<and> pd_totalPages (progressData e now) = totalPages e
   \<and> emitProgress e now = Progress (progressData e now)
   \<and> pd_percentage (progressData snapshot_engine 301000) = 25
   \<and> pd_elapsedTime (progressData snapshot_engine 301000) = 300
   \<and> pd_estimatedTimeRemaining (progressData snapshot_engine 301000) = Some 900"
  by (auto simp: progressData_def truthy_num_def Let_def emitProgress_def
      snapshot_engine_def new_engine_def getElapsedTime_def)

theorem progress_snapshot_witness:
  "totalPages snapshot_engine = Some 120 \<and> currentPage snapshot_engine = 30
   \<and> getElapsedTime snapshot_engine 301000 = 300
   \<and> pd_percentage (progressData snapshot_engine 301000) = 30 / 120 * 100
   \<and> pd_estimatedTimeRemaining (progressData snapshot_engine 301000)
       = Some ((300 / 30) * (120 - 30))
   \<and> pd_estimatedTimeRemaining (progressData (new_engine\<lparr>currentPage := 30\<rparr>) 301000) = None
   \<and> pd_percentage (progressData (new_engine\<lparr>currentPage := 30\<rparr>) 301000) = 0"
proof -
  have t: "totalPages snapshot_engine = Some 120" and c: "currentPage snapshot_engine = 30"
    by (simp_all add: snapshot_engine_def new_engine_def)
  have el: "getElapsedTime snapshot_engine 301000 = 300"
    by (simp add: snapshot_engine_def new_engine_def getElapsedTime_def)
  have u: "\<not> truthy_num (totalPages (new_engine\<lparr>currentPage := 30\<rparr>))"
    by (simp add: new_engine_def truthy_num_def)
  show ?thesis
    using progress_snapshot [of snapshot_engine 120 301000]
      progress_snapshot [of "new_engine\<lparr>currentPage := 30\<rparr>" 0 301000] t c el u
    by simp
qed

section \<open>Properties of the reading loop\<close>

lemma completed_events_simps [simp]:
  "completed_events [] = []"
  "completed_events (a @ b) = completed_events a @ completed_events b"
  "completed_events (ev # evs) = completedOf ev @ completed_events evs"
  by (simp_all add: completed_events_def)

lemma frame_refl [simp]: "frame e e"
  by (simp add: frame_def)

lemma frame_trans: "frame a b \<Longrightarrow> frame b c \<Longrightarrow> frame a c"
  by (simp add: frame_def)

lemma deliver1_ok: "deliver1 e s = (e', evs) \<Longrightarrow> frame e e' \<and> completed_events evs = []"
  by (cases s; cases "fst s")
     (auto simp: pause_def resume_def stop_def frame_def split: if_splits)

lemma deliver_ok: "deliver e ss = (e', evs) \<Longrightarrow> frame e e' \<and> completed_events evs = []"
proof (induction ss arbitrary: e e' evs)
  case Nil
  then show ?case by simp
next
  case (Cons s ss)
  obtain e1 ev1 where d1: "deliver1 e s = (e1, ev1)" by (cases "deliver1 e s")
  obtain e2 ev2 where d2: "deliver e1 ss = (e2, ev2)" by (cases "deliver e1 ss")
  from Cons.prems d1 d2 have eq: "e' = e2" "evs = ev1 @ ev2" by simp_all
  from deliver1_ok [OF d1] Cons.IH [OF d2] eq show ?case
    by (auto intro: frame_trans)
qed

lemma pauseWait_ok:
  "pauseWait e ws = (e', evs, ok) \<Longrightarrow> frame e e' \<and> completed_events evs = []"
proof (induction ws arbitrary: e e' evs ok)
  case Nil
  then show ?case by simp
next
  case (Cons w ws)
  show ?case
  proof (cases "isPaused e \<and> \<not> shouldStop e")
    case False
    with Cons.prems show ?thesis by auto
  next
    case True
    obtain e1 ev1 where d1: "deliver e (signals w) = (e1, ev1)" by (cases "deliver e (signals w)")
    obtain e2 ev2 ok2 where d2: "pauseWait e1 ws = (e2, ev2, ok2)" by (cases "pauseWait e1 ws")
    from Cons.prems True d1 d2 have eq: "e' = e2" "evs = ev1 @ ev2" by simp_all
    from deliver_ok [OF d1] Cons.IH [OF d2] eq show ?thesis
      by (auto intro: frame_trans)
  qed
qed


lemma altScan_ok:
  "altScan e qs c now = (e', evs, now', r) \<Longrightarrow> frame e e' \<and> completed_events evs = []"
proof (induction qs arbitrary: e e' evs now now' r)
  case Nil
  then show ?case by simp
next
  case (Cons q qs)
  obtain e1 ev1 where d1: "deliver e (signals q) = (e1, ev1)" by (cases "deliver e (signals q)")
  note f1 = deliver_ok [OF d1]
  show ?case
  proof (cases "result q")
    case (Inl x)
    with Cons.prems d1 f1 show ?thesis by auto
  next
    case (Inr b)
    show ?thesis
    proof (cases b)
      case True
      obtain e2 ev2 where d2: "deliver e1 (signals c) = (e2, ev2)" by (cases "deliver e1 (signals c)")
      from Cons.prems d1 d2 Inr True have "e' = e2" "evs = ev1 @ ev2" by simp_all
      with f1 deliver_ok [OF d2] show ?thesis by (auto intro: frame_trans)
    next
      case False
      obtain e2 ev2 n2 r2 where d2: "altScan e1 qs c (wake q) = (e2, ev2, n2, r2)"
        by (cases "altScan e1 qs c (wake q)")
      from Cons.prems d1 d2 Inr False have "e' = e2" "evs = ev1 @ ev2" by simp_all
      with f1 Cons.IH [OF d2] show ?thesis by (auto intro: frame_trans)
    qed
  qed
qed


lemma backoff_ok:
  "backoff e t x = (e', evs, r) \<Longrightarrow> frame e e' \<and> completed_events evs = [] \<and> r = Next"
  using deliver_ok [of e "signals (sleepAfter t)"]
  by (auto simp: backoff_def split: prod.splits)

lemma afterClick_ok:
  assumes "afterClick e t now = (e', evs, r)"
  shows "bookQueueId e' = bookQueueId e \<and> startTime e' = startTime e
       \<and> browser e' = browser e \<and> page e' = page e \<and> config e' = config e
       \<and> currentPage e' = currentPage e + 1
       \<and> r \<noteq> End_of_book
       \<and> (r = Next \<longrightarrow> completed_events evs = [])
       \<and> (r = All_pages_read \<longrightarrow> (\<exists>n. completed_events evs = [completedData e' n]))"
proof -
  let ?e1 = "e\<lparr>currentPage := currentPage e + 1\<rparr>"
  obtain ea eva where d1: "deliver ?e1 (signals (reprobe t)) = (ea, eva)"
    by (cases "deliver ?e1 (signals (reprobe t))")
  note f1 = deliver_ok [OF d1]
  show ?thesis
  proof (cases "truthy_num (totalPages ?e1)")
    case True
    obtain e3 ev3 where d3: "deliver ?e1 (signals (sleepAfter t)) = (e3, ev3)"
      by (cases "deliver ?e1 (signals (sleepAfter t))")
    note f3 = deliver_ok [OF d3]
    from assms True d3 f3 show ?thesis
      by (auto simp: afterClick_def Let_def emitProgress_def emitCompleted_def frame_def
          split: if_splits)
  next
    case False
    show ?thesis
    proof (cases "truthy_num (result (reprobe t)) \<and> result (reprobe t) \<noteq> totalPages ea")
      case True
      let ?e2 = "ea\<lparr>totalPages := result (reprobe t)\<rparr>"
      obtain e3 ev3 where d3: "deliver ?e2 (signals (sleepAfter t)) = (e3, ev3)"
        by (cases "deliver ?e2 (signals (sleepAfter t))")
      note f3 = deliver_ok [OF d3]
      from assms False True d1 f1 d3 f3 show ?thesis
        by (auto simp: afterClick_def Let_def emitProgress_def emitCompleted_def frame_def
            split: if_splits)
    next
      case nt: False
      obtain e3 ev3 where d3: "deliver ea (signals (sleepAfter t)) = (e3, ev3)"
        by (cases "deliver ea (signals (sleepAfter t))")
      note f3 = deliver_ok [OF d3]
      from assms False nt d1 f1 d3 f3 show ?thesis
        by (auto simp: afterClick_def Let_def emitProgress_def emitCompleted_def frame_def
            split: if_splits)
    qed
  qed
qed


lemma frame_kept: "frame e e' \<Longrightarrow> kept e e'"
  by (simp add: frame_def kept_def)

lemma kept_refl [simp]: "kept e e"
  by (simp add: kept_def)

lemma kept_trans: "kept a b \<Longrightarrow> kept b c \<Longrightarrow> kept a c"
  by (simp add: kept_def)

lemma afterClick_kept:
  "afterClick e t now = (e', evs, r) \<Longrightarrow>
     kept e e' \<and> r \<noteq> End_of_book
     \<and> (r = Next \<longrightarrow> completed_events evs = [])
     \<and> (r = All_pages_read \<longrightarrow> (\<exists>n. completed_events evs = [completedData e' n]))"
  using afterClick_ok [of e t now e' evs r] by (simp add: kept_def)

lemma endOfBook_completed: "completed_events (endOfBook e now) = [completedData e now]"
  by (simp add: endOfBook_def emitCompleted_def)

lemma turn_post_backoff:
  assumes "frame e e1" "completed_events ev1 = []" "backoff e1 t x = (e', ev2, r)"
  shows "turn_post e e' (ev1 @ ev2) r"
  using assms backoff_ok [OF assms(3)]
  by (auto simp: turn_post_def frame_def kept_def)

lemma turn_post_afterClick:
  assumes "frame e e1" "completed_events ev1 = []" "afterClick e1 t now = (e', ev2, r)"
  shows "turn_post e e' (ev1 @ ev2) r"
  using assms afterClick_kept [OF assms(3)]
  by (cases r) (auto simp: turn_post_def frame_def kept_def)

lemma turn_post_end:
  assumes "frame e e1" "completed_events ev1 = []"
  shows "turn_post e e1 (ev1 @ endOfBook e1 now) End_of_book"
  using assms by (auto simp: turn_post_def frame_def kept_def endOfBook_completed)

lemma pageTurn_ok:
  assumes "pageTurn e t = (e', evs, r)"
  shows "turn_post e e' evs r"
proof -
  obtain e1 ev1 where d1: "deliver e (signals (primaryQuery t)) = (e1, ev1)"
    by (cases "deliver e (signals (primaryQuery t))")
  note f1 = deliver_ok [OF d1]
  show ?thesis
  proof (cases "result (primaryQuery t)")
    case (Inl x)
    obtain e2 ev2 r2 where b: "backoff e1 t x = (e2, ev2, r2)" by (cases "backoff e1 t x")
    from assms d1 Inl b have "e' = e2" "evs = ev1 @ ev2" "r = r2"
      by (auto simp: pageTurn_def)
    with turn_post_backoff [OF _ _ b, of e ev1] f1 show ?thesis by simp
  next
    case (Inr found)
    show ?thesis
    proof (cases found)
      case False
      obtain e2 ev2 n2 sr where sc:
        "altScan e1 (map (altQueries t) [0..<6]) (altClick t) (wake (primaryQuery t)) = (e2, ev2, n2, sr)"
        by (cases "altScan e1 (map (altQueries t) [0..<6]) (altClick t) (wake (primaryQuery t))")
      from altScan_ok [OF sc] f1 have f2: "frame e e2" "completed_events (ev1 @ ev2) = []"
        by (auto intro: frame_trans)
      show ?thesis
      proof (cases sr)
        case Found
        obtain e3 ev3 r3 where a: "afterClick e2 t n2 = (e3, ev3, r3)" by (cases "afterClick e2 t n2")
        from assms d1 Inr False sc Found a have "e' = e3" "evs = (ev1 @ ev2) @ ev3" "r = r3"
          by (auto simp: pageTurn_def)
        with turn_post_afterClick [OF f2 a] show ?thesis by simp
      next
        case Not_found
        from assms d1 Inr False sc Not_found
        have "e' = e2" "evs = (ev1 @ ev2) @ endOfBook e2 n2" "r = End_of_book"
          by (auto simp: pageTurn_def)
        with turn_post_end [OF f2] show ?thesis by simp
      next
        case (Scan_threw x)
        obtain e3 ev3 r3 where b: "backoff e2 t x = (e3, ev3, r3)" by (cases "backoff e2 t x")
        from assms d1 Inr False sc Scan_threw b have "e' = e3" "evs = (ev1 @ ev2) @ ev3" "r = r3"
          by (auto simp: pageTurn_def)
        with turn_post_backoff [OF f2 b] show ?thesis by simp
      qed
    next
      case True
      obtain e2 ev2 where d2: "deliver e1 (signals (disabledEval t)) = (e2, ev2)"
        by (cases "deliver e1 (signals (disabledEval t))")
      from deliver_ok [OF d2] f1 have f2: "frame e e2" "completed_events (ev1 @ ev2) = []"
        by (auto intro: frame_trans)
      show ?thesis
      proof (cases "result (disabledEval t)")
        case (Inl x)
        obtain e3 ev3 r3 where b: "backoff e2 t x = (e3, ev3, r3)" by (cases "backoff e2 t x")
        from assms d1 Inr True d2 Inl b have "e' = e3" "evs = (ev1 @ ev2) @ ev3" "r = r3"
          by (auto simp: pageTurn_def)
        with turn_post_backoff [OF f2 b] show ?thesis by simp
      next
        case dis: (Inr disabled)
        show ?thesis
        proof (cases disabled)
          case dt: True
          from assms d1 Inr True d2 dis dt
          have "e' = e2" "evs = (ev1 @ ev2) @ endOfBook e2 (wake (disabledEval t))" "r = End_of_book"
            by (auto simp: pageTurn_def)
          with turn_post_end [OF f2] show ?thesis by simp
        next
          case df: False
          obtain e3 ev3 where d3: "deliver e2 (signals (click t)) = (e3, ev3)"
            by (cases "deliver e2 (signals (click t))")
          from deliver_ok [OF d3] f2 have f3: "frame e e3" "completed_events ((ev1 @ ev2) @ ev3) = []"
            by (auto intro: frame_trans)
          show ?thesis
          proof (cases "result (click t)")
            case (Inl x)
            obtain e4 ev4 r4 where b: "backoff e3 t x = (e4, ev4, r4)" by (cases "backoff e3 t x")
            from assms d1 Inr True d2 dis df d3 Inl b
            have "e' = e4" "evs = ((ev1 @ ev2) @ ev3) @ ev4" "r = r4"
              by (auto simp: pageTurn_def)
            with turn_post_backoff [OF f3 b] show ?thesis by simp
          next
            case clicked: (Inr u)
            obtain e4 ev4 r4 where a: "afterClick e3 t (wake (click t)) = (e4, ev4, r4)"
              by (cases "afterClick e3 t (wake (click t))")
            from assms d1 Inr True d2 dis df d3 clicked a
            have "e' = e4" "evs = ((ev1 @ ev2) @ ev3) @ ev4" "r = r4"
              by (auto simp: pageTurn_def)
            with turn_post_afterClick [OF f3 a] show ?thesis by simp
          qed
        qed
      qed
    qed
  qed
qed


lemma readLoop_ok: "readLoop e ts = (e', evs, fin) \<Longrightarrow> loop_post e e' evs fin"
proof (induction ts arbitrary: e e' evs fin)
  case Nil
  then show ?case by (auto simp: loop_post_def split: if_splits)
next
  case (Cons t ts)
  show ?case
  proof (cases "shouldStop e")
    case True
    with Cons.prems show ?thesis by (auto simp: loop_post_def)
  next
    case False
    obtain e1 ev1 ok where pw: "pauseWait e (waits t) = (e1, ev1, ok)"
      by (cases "pauseWait e (waits t)")
    from pauseWait_ok [OF pw] have f1: "kept e e1" "completed_events ev1 = []"
      by (auto intro: frame_kept)
    show ?thesis
    proof (cases "ok \<and> \<not> shouldStop e1")
      case nok: False
      with Cons.prems False pw f1 show ?thesis
        by (auto simp: loop_post_def split: if_splits)
    next
      case ok: True
      obtain e2 ev2 r where pt: "pageTurn e1 t = (e2, ev2, r)" by (cases "pageTurn e1 t")
      from pageTurn_ok [OF pt] have tp: "turn_post e1 e2 ev2 r" .
      then have k2: "kept e e2" using f1 by (auto simp: turn_post_def intro: kept_trans)
      show ?thesis
      proof (cases r)
        case Next
        obtain e3 ev3 f3 where rl: "readLoop e2 ts = (e3, ev3, f3)" by (cases "readLoop e2 ts")
        from Cons.prems False pw ok pt Next rl
        have eq: "e' = e3" "evs = ev1 @ ev2 @ ev3" "fin = f3" by auto
        from tp Next have "completed_events ev2 = []" by (simp add: turn_post_def)
        with Cons.IH [OF rl] f1 k2 eq show ?thesis
          by (auto simp: loop_post_def intro: kept_trans)
      next
        case End_of_book
        from Cons.prems False pw ok pt End_of_book
        have eq: "e' = e2" "evs = ev1 @ ev2" "fin = Ended_book" by auto
        with tp End_of_book f1 k2 show ?thesis
          by (auto simp: loop_post_def turn_post_def)
      next
        case All_pages_read
        from Cons.prems False pw ok pt All_pages_read
        have eq: "e' = e2" "evs = ev1 @ ev2" "fin = Ended_all_read" by auto
        with tp All_pages_read f1 k2 show ?thesis
          by (auto simp: loop_post_def turn_post_def)
      qed
    qed
  qed
qed

lemma readPages_ok:
  assumes "readPages e rs = (e', evs, fin)"
  shows "kept e e'
     \<and> (fin = Stopped \<or> fin = Waiting \<or> fin = Not_entered \<longrightarrow> completed_events evs = [])
     \<and> (fin = Ended_book \<or> fin = Ended_all_read \<longrightarrow>
          (\<exists>n. completed_events evs = [completedData e' n]))"
proof (cases "\<not> page e \<or> config e = None")
  case True
  with assms show ?thesis by (auto simp: readPages_def)
next
  case False
  obtain e1 ev1 where d1: "deliver e (signals (preSleep rs)) = (e1, ev1)"
    by (cases "deliver e (signals (preSleep rs))")
  obtain e2 ev2 where d2: "deliver e1 (signals (preProbe rs)) = (e2, ev2)"
    by (cases "deliver e1 (signals (preProbe rs))")
  let ?e3 = "e2\<lparr>totalPages := result (preProbe rs)\<rparr>"
  obtain e4 ev4 f4 where rl: "readLoop ?e3 (turns rs) = (e4, ev4, f4)"
    by (cases "readLoop ?e3 (turns rs)")
  from deliver_ok [OF d1] deliver_ok [OF d2]
  have k: "kept e ?e3" and c: "completed_events ev1 = []" "completed_events ev2 = []"
    by (auto simp: frame_def kept_def)
  from readLoop_ok [OF rl] have lp: "loop_post ?e3 e4 ev4 f4" .
  from assms False d1 d2 rl have e': "e' = e4" and fin: "fin = f4"
    by (auto simp: readPages_def Let_def split: if_splits)
  from lp k e' have kk: "kept e e'" by (auto simp: loop_post_def intro: kept_trans)
  from assms False d1 d2 rl c have ce: "completed_events evs = completed_events ev4"
    by (auto simp: readPages_def Let_def emitProgress_def split: if_splits)
  from lp kk ce e' fin show ?thesis by (auto simp: loop_post_def)
qed




text \<open>
  Claim C9. In the payload of a completed event, when the engine holds no total the
  \<open>totalPages\<close> field is the number of pages read, and whenever at least one page was
  turned the field is positive; it is a number in every case. Every completed event in the
  trace of \<open>readPages\<close> is such a payload, taken from the state the run ends in.
\<close>

theorem completed_total_fallback:
  "(totalPages e = None \<longrightarrow> cd_totalPages (completedData e now) = currentPage e)
   \<and> (currentPage e > 0 \<longrightarrow> cd_totalPages (completedData e now) > 0)
   \<and> cd_pagesRead (completedData e now) = currentPage e
   \<and> emitCompleted e now = CompletedEvent (completedData e now)
   \<and> (case readPages e0 rs of (e', evs, fin) \<Rightarrow>
         list_all (\<lambda>d. (totalPages e' = None \<longrightarrow> cd_totalPages d = cd_pagesRead d)
                      \<and> (cd_pagesRead d > 0 \<longrightarrow> cd_totalPages d > 0)
                      \<and> cd_pagesRead d = currentPage e')
           (completed_events evs))"
proof -
  have a: "(totalPages e = None \<longrightarrow> cd_totalPages (completedData e now) = currentPage e)
   \<and> (currentPage e > 0 \<longrightarrow> cd_totalPages (completedData e now) > 0)
   \<and> cd_pagesRead (completedData e now) = currentPage e
   \<and> emitCompleted e now = CompletedEvent (completedData e now)" for e now
    by (auto simp: completedData_def truthy_num_def emitCompleted_def split: option.splits)
  obtain e' evs fin where rp: "readPages e0 rs = (e', evs, fin)" by (cases "readPages e0 rs")
  from readPages_ok [OF rp]
  have "completed_events evs = [] \<or> (\<exists>n. completed_events evs = [completedData e' n])"
    by (cases fin) auto
  then have "list_all (\<lambda>d. (totalPages e' = None \<longrightarrow> cd_totalPages d = cd_pagesRead d)
                      \<and> (cd_pagesRead d > 0 \<longrightarrow> cd_totalPages d > 0)
                      \<and> cd_pagesRead d = currentPage e')
           (completed_events evs)"
    using a [of e'] by auto
  with a [of e now] rp show ?thesis by simp
qed

theorem completed_total_fallback_witness:
  "totalPages (new_engine\<lparr>currentPage := 7\<rparr>) = None
   \<and> currentPage (new_engine\<lparr>currentPage := 7\<rparr>) > 0
   \<and> cd_totalPages (completedData (new_engine\<lparr>currentPage := 7\<rparr>) 5000) = 7"
proof -
  have h: "totalPages (new_engine\<lparr>currentPage := 7\<rparr>) = None"
    "currentPage (new_engine\<lparr>currentPage := 7\<rparr>) = 7"
    by (simp_all add: new_engine_def)
  show ?thesis
    using completed_total_fallback [of "new_engine\<lparr>currentPage := 7\<rparr>" 5000] h by simp
qed

section \<open>Properties of the run\<close>

lemma or_none_idem [simp]: "or_none (or_none v) = or_none v"
  by (simp add: or_none_def)









lemma body_post_threw:
  "bookQueueId e' = bookQueueId e \<Longrightarrow> completed_events evs = [] \<Longrightarrow> body_post e e' evs (Body_threw x)"
  by (simp add: body_post_def)


lemma returned_simps [simp]:
  "returned (Body_threw x)" "returned Body_stopped" "returned (Body_read fin) \<longleftrightarrow> fin \<noteq> Waiting"
  by (simp_all add: returned_def)











section \<open>Properties of the bridge and of the registry\<close>












section \<open>Properties of the configuration schema\<close>

lemma schema_Some:
  assumes "automationConfigSchema payload = Some cfg"
  shows "\<exists>kvs. payload = Some (JObj kvs)
     \<and> z_ra (member kvs ''ra'') = Some (cfg_ra cfg)
     \<and> z_string_min1 (member kvs ''password'') = Some (cfg_password cfg)
     \<and> z_string_min1 (member kvs ''bookSlug'') = Some (cfg_bookSlug cfg)
     \<and> z_interval (member kvs ''interval'') = Some (cfg_interval cfg)
     \<and> z_string_optional (member kvs ''bookQueueId'') = Some (cfg_bookQueueId cfg)"
  using assms
  by (auto simp: automationConfigSchema_def split: option.splits json.splits)

lemma z_interval_range: "z_interval v = Some i \<Longrightarrow> 60 \<le> i \<and> i \<le> 300"
  by (auto simp: z_interval_def split: option.splits json.splits if_splits)

lemma z_string_min1_nonempty: "z_string_min1 v = Some s \<Longrightarrow> s \<noteq> []"
  by (auto simp: z_string_min1_def split: option.splits json.splits if_splits)

lemma z_ra_regex: "z_ra v = Some s \<Longrightarrow> ra_regex s"
  by (auto simp: z_ra_def split: option.splits if_splits)

lemma ra_regex_shape:
  "ra_regex s \<longleftrightarrow> (\<exists>ds a b. s = ds @ [a, b] \<and> ds \<noteq> [] \<and> list_all is_digit ds \<and> is_letter a \<and> is_letter b)"
proof
  assume r: "ra_regex s"
  let ?ds = "take (length s - 2) s" and ?t = "drop (length s - 2) s"
  from r have l: "length s \<ge> 3" and d: "list_all is_digit ?ds" and t: "list_all is_letter ?t"
    by (simp_all add: ra_regex_def)
  from l have "length ?t = 2" by simp
  then obtain a b where ab: "?t = [a, b]"
    by (metis (no_types, opaque_lifting) One_nat_def Suc_1 length_0_conv length_Suc_conv)
  have "s = ?ds @ ?t" by simp
  with ab have "s = ?ds @ [a, b]" by simp
  moreover from l have "?ds \<noteq> []" by auto
  moreover from t ab have "is_letter a" "is_letter b" by simp_all
  ultimately show "\<exists>ds a b. s = ds @ [a, b] \<and> ds \<noteq> [] \<and> list_all is_digit ds \<and> is_letter a \<and> is_letter b"
    using d by blast
next
  assume "\<exists>ds a b. s = ds @ [a, b] \<and> ds \<noteq> [] \<and> list_all is_digit ds \<and> is_letter a \<and> is_letter b"
  then obtain ds a b where "s = ds @ [a, b]" "ds \<noteq> []" "list_all is_digit ds" "is_letter a" "is_letter b"
    by blast
  then show "ra_regex s"
    by (cases ds) (auto simp: ra_regex_def)
qed

text \<open>
  Claim C7, as the spec states it: an interval outside the range is clamped into it. On
  the code the schema refuses it: a start command with interval 30 is not started with
  interval 60, it is answered with the configuration error.
\<close>

theorem interval_not_clamped_counterexample:
  "map_option cfg_interval (automationConfigSchema (Some (start_payload 30)))
     \<noteq> Some (spec_clamp 30)
   \<and> on_start (Some (start_payload 30)) = Rejected msg_configuracao_invalida"
  by code_simp

text \<open>
  Claim C7, amended. A start command whose interval lies outside [60, 300] is rejected with
  the configuration error and no run is started; an interval inside the range is taken as
  it is and a missing one is 60. Every configuration the schema accepts has its interval in
  [60, 300], an identifier that is one or more digits followed by exactly two letters, and
  a non-empty secret (and book reference).
\<close>

theorem schema_validates:
  "(automationConfigSchema payload = Some cfg \<longrightarrow>
      60 \<le> cfg_interval cfg \<and> cfg_interval cfg \<le> 300
      \<and> ra_regex (cfg_ra cfg) \<and> cfg_password cfg \<noteq> [] \<and> cfg_bookSlug cfg \<noteq> [])
   \<and> (member kvs ''interval'' = Some (JNum x) \<and> (x < 60 \<or> 300 < x) \<longrightarrow>
        on_start (Some (JObj kvs)) = Rejected msg_configuracao_invalida)
   \<and> (member kvs ''interval'' = Some (JNum x) \<and> automationConfigSchema (Some (JObj kvs)) = Some cfg'
        \<longrightarrow> cfg_interval cfg' = x)
   \<and> (member kvs ''interval'' = None \<and> automationConfigSchema (Some (JObj kvs)) = Some cfg'
        \<longrightarrow> cfg_interval cfg' = 60)
   \<and> (ra_regex s \<longleftrightarrow>
        (\<exists>ds a b. s = ds @ [a, b] \<and> ds \<noteq> [] \<and> list_all is_digit ds \<and> is_letter a \<and> is_letter b))"
proof -
  have a: "automationConfigSchema payload = Some cfg \<longrightarrow>
      60 \<le> cfg_interval cfg \<and> cfg_interval cfg \<le> 300
      \<and> ra_regex (cfg_ra cfg) \<and> cfg_password cfg \<noteq> [] \<and> cfg_bookSlug cfg \<noteq> []"
    using schema_Some [of payload cfg] z_interval_range z_string_min1_nonempty z_ra_regex
    by blast
  have b: "member kvs ''interval'' = Some (JNum x) \<and> (x < 60 \<or> 300 < x) \<longrightarrow>
        on_start (Some (JObj kvs)) = Rejected msg_configuracao_invalida"
    by (auto simp: on_start_def automationConfigSchema_def z_interval_def split: option.splits)
  have c: "member kvs ''interval'' = Some (JNum x) \<and> automationConfigSchema (Some (JObj kvs)) = Some cfg'
        \<longrightarrow> cfg_interval cfg' = x"
    using schema_Some [of "Some (JObj kvs)" cfg']
    by (auto simp: z_interval_def split: if_splits)
  have d: "member kvs ''interval'' = None \<and> automationConfigSchema (Some (JObj kvs)) = Some cfg'
        \<longrightarrow> cfg_interval cfg' = 60"
    using schema_Some [of "Some (JObj kvs)" cfg']
    by (auto simp: z_interval_def)
  from a b c d ra_regex_shape [of s] show ?thesis by blast
qed

theorem schema_validates_witness:
  "automationConfigSchema (Some (start_payload 120))
     = Some \<lparr> cfg_ra = ''00001152877136sp'', cfg_password = ''secret'',
              cfg_bookSlug = ''livro'', cfg_interval = 120, cfg_bookQueueId = None \<rparr>
   \<and> ra_regex ''00001152877136sp''
   \<and> member [(''ra'', JStr ''00001152877136sp''), (''interval'', JNum 30)] ''interval''
       = Some (JNum 30)
   \<and> on_start (Some (JObj [(''ra'', JStr ''00001152877136sp''), (''interval'', JNum 30)]))
       = Rejected msg_configuracao_invalida"
proof -
  let ?cfg = "\<lparr> cfg_ra = ''00001152877136sp'', cfg_password = ''secret'',
              cfg_bookSlug = ''livro'', cfg_interval = 120, cfg_bookQueueId = None \<rparr>"
  let ?kvs = "[(''ra'', JStr ''00001152877136sp''), (''interval'', JNum 30)]"
  have p: "automationConfigSchema (Some (start_payload 120)) = Some ?cfg"
    by code_simp
  have m: "member ?kvs ''interval'' = Some (JNum 30)"
    by (simp add: member_def)
  note t = schema_validates [where payload = "Some (start_payload 120)" and cfg = ?cfg
      and kvs = ?kvs and x = 30]
  have x: "(30::real) < 60 \<or> 300 < (30::real)" by simp
  from t p have "ra_regex (cfg_ra ?cfg)" by blast
  then have a: "ra_regex ''00001152877136sp''" by simp
  from t m x have b: "on_start (Some (JObj ?kvs)) = Rejected msg_configuracao_invalida"
    by blast
  from p a m b show ?thesis by blast
qed

section \<open>Properties of the catalog scrape\<close>

lemma scanHeadings_bound:
  "scanHeadings processed cats hs = Inr cats' \<Longrightarrow>
   list_all (\<lambda>c. length (bc_books c) \<le> 20) cats \<Longrightarrow>
   list_all (\<lambda>c. length (bc_books c) \<le> 20) cats'"
proof (induction hs arbitrary: processed cats)
  case Nil
  then show ?case by simp
next
  case (Cons h hs)
  show ?case
  proof (cases h)
    case (Inl x)
    with Cons.prems show ?thesis by simp
  next
    case (Inr nc)
    obtain n cards where nc: "nc = (n, cards)" by (cases nc)
    show ?thesis
    proof (cases "skip_heading processed n")
      case True
      with Cons.prems Inr nc Cons.IH [of processed cats] show ?thesis by simp
    next
      case False
      let ?books = "collectCards n [] cards"
      let ?cats = "if length ?books > 0
                   then cats @ [\<lparr> bc_name = n, bc_books = take 20 ?books \<rparr>] else cats"
      from Cons.prems(1) Inr nc False
      have s: "scanHeadings (n # processed) ?cats hs = Inr cats'" by (simp add: Let_def)
      have b: "list_all (\<lambda>c. length (bc_books c) \<le> 20) ?cats"
        using Cons.prems(2) by simp
      from Cons.IH [OF s b] show ?thesis .
    qed
  qed
qed

lemma collectCards_replicate:
  "card_title g \<noteq> [] \<Longrightarrow> length (card_title g) > 2 \<Longrightarrow> length (card_title g) < 200 \<Longrightarrow>
   length (collectCards cat books (replicate n (t, Inr g))) = length books + n"
  by (induction n arbitrary: books) simp_all

lemma collectImages_replicate:
  "card_title g \<noteq> [] \<Longrightarrow> card_coverUrl g \<noteq> [] \<Longrightarrow>
   length (collectImages books (replicate n (t, Inr g))) = length books + n"
  by (induction n arbitrary: books) (simp_all add: Let_def)

lemma heading_example: "\<not> skip_heading [] ''1 Ano''"
  by (simp add: skip_heading_def category_marker_def)

text \<open>
  Claim C10. In every result of the catalog scrape: when the headings give at least one
  category the result is those categories and each holds at most 20 books; when they give
  none the result is empty or the single synthetic category, which holds at most 50 books;
  without a page the result is empty.
\<close>

theorem scrape_category_bounds:
  assumes "scrapeBooks has_page sc = Inr cats"
  shows "(has_page \<and> scanHeadings [] [] (headings sc) \<noteq> Inr [] \<longrightarrow>
            scanHeadings [] [] (headings sc) = Inr cats
            \<and> list_all (\<lambda>c. length (bc_books c) \<le> 20) cats)
       \<and> (has_page \<and> scanHeadings [] [] (headings sc) = Inr [] \<longrightarrow>
            length cats \<le> 1
            \<and> list_all (\<lambda>c. bc_name c = fallback_name \<and> length (bc_books c) \<le> 50) cats)
       \<and> (\<not> has_page \<longrightarrow> cats = [])"
proof (cases "has_page")
  case False
  with assms show ?thesis by (simp add: scrapeBooks_def)
next
  case True
  show ?thesis
  proof (cases "scanHeadings [] [] (headings sc)")
    case (Inl x)
    with assms True show ?thesis by (simp add: scrapeBooks_def split: option.splits)
  next
    case (Inr found)
    from scanHeadings_bound [OF Inr] have b: "list_all (\<lambda>c. length (bc_books c) \<le> 20) found"
      by simp
    show ?thesis
    proof (cases "found = []")
      case False
      with assms True Inr b show ?thesis
        by (auto simp: scrapeBooks_def split: option.splits)
    next
      case e: True
      with assms True Inr show ?thesis
        by (auto simp: scrapeBooks_def Let_def split: option.splits sum.splits if_splits)
    qed
  qed
qed

theorem scrape_category_bounds_witness:
  "scrapeBooks True heading_script
     = Inr [\<lparr> bc_name = ''1 Ano'',
              bc_books = take 20 (collectCards ''1 Ano'' [] (replicate 21 example_card)) \<rparr>]
   \<and> length (collectCards ''1 Ano'' [] (replicate 21 example_card)) = 21
   \<and> list_all (\<lambda>c. length (bc_books c) \<le> 20)
        [\<lparr> bc_name = ''1 Ano'',
            bc_books = take 20 (collectCards ''1 Ano'' [] (replicate 21 example_card)) \<rparr>]
   \<and> scrapeBooks True image_script
       = Inr [\<lparr> bc_name = fallback_name,
                bc_books = take 50 (collectImages [] (replicate 51 example_card)) \<rparr>]
   \<and> length (collectImages [] (replicate 51 example_card)) = 51
   \<and> list_all (\<lambda>c. bc_name c = fallback_name \<and> length (bc_books c) \<le> 50)
        [\<lparr> bc_name = fallback_name,
            bc_books = take 50 (collectImages [] (replicate 51 example_card)) \<rparr>]"
proof -
  let ?g = "\<lparr> card_coverUrl = ''c'', card_title = ''Dom'', card_href = [] \<rparr>"
  have l1: "length (collectCards ''1 Ano'' [] (replicate 21 example_card)) = 21"
    unfolding example_card_def using collectCards_replicate [of ?g "''1 Ano''" "[]" 21 7] by simp
  have l2: "length (collectImages [] (replicate 51 example_card)) = 51"
    unfolding example_card_def using collectImages_replicate [of ?g "[]" 51 7] by simp
  have n1: "collectCards ''1 Ano'' [] (replicate 21 example_card) \<noteq> []"
    using l1 by (auto simp del: collectCards.simps replicate.simps)
  have n2: "collectImages [] (replicate 51 example_card) \<noteq> []"
    using l2 by (auto simp del: collectImages.simps replicate.simps)
  have s1: "scrapeBooks True heading_script
     = Inr [\<lparr> bc_name = ''1 Ano'',
              bc_books = take 20 (collectCards ''1 Ano'' [] (replicate 21 example_card)) \<rparr>]"
    using n1 heading_example
    by (simp add: scrapeBooks_def heading_script_def Let_def
        del: collectCards.simps replicate.simps)
  have s2: "scrapeBooks True image_script
       = Inr [\<lparr> bc_name = fallback_name,
                bc_books = take 50 (collectImages [] (replicate 51 example_card)) \<rparr>]"
    using n2
    by (simp add: scrapeBooks_def image_script_def Let_def
        del: collectImages.simps replicate.simps)
  have h1: "scanHeadings [] [] (headings heading_script) \<noteq> Inr []"
    using n1 heading_example
    by (simp add: heading_script_def Let_def del: collectCards.simps replicate.simps)
  have h2: "scanHeadings [] [] (headings image_script) = Inr []"
    by (simp add: image_script_def)
  from scrape_category_bounds [OF s1] h1
  have b1: "list_all (\<lambda>c. length (bc_books c) \<le> 20)
        [\<lparr> bc_name = ''1 Ano'',
            bc_books = take 20 (collectCards ''1 Ano'' [] (replicate 21 example_card)) \<rparr>]"
    by blast
  from scrape_category_bounds [OF s2] h2
  have b2: "list_all (\<lambda>c. bc_name c = fallback_name \<and> length (bc_books c) \<le> 50)
        [\<lparr> bc_name = fallback_name,
            bc_books = take 50 (collectImages [] (replicate 51 example_card)) \<rparr>]"
    by blast
  from l1 l2 s1 s2 b1 b2 show ?thesis by blast
qed

end
